theory Spec2Isabelle
  imports Complex_Main "HOL-Library.AList"
begin

section \<open>The iteration-based runner of LAVIS (lavis/runners/runner\_iter.py)\<close>

text \<open>
  \<open>RunnerIter\<close> drives training by iteration count: every \<open>iters_per_inner_epoch\<close>
  steps form an inner epoch, after which the validation splits are evaluated and a
  checkpoint may be saved. The model below follows \<open>runner_iter.py\<close> function by
  function. Calls into the framework (the task's training and evaluation, the
  distributed barrier, \<open>torch.save\<close>, \<open>log_stats\<close>) are effects: each one is
  appended, in program order, to the \<open>trace\<close> of the state.
  Metrics are Python numbers and are modelled as reals; iteration counts are
  Python integers.
\<close>

subsection \<open>Data\<close>

text \<open>A validation or training log: a Python dict from names to numbers, in insertion order.\<close>
type_synonym val_log = "(string \<times> real) list"

text \<open>A state dict of the model or of the optimizer: named tensors, opaque to the runner.\<close>
type_synonym state_dict = "(string \<times> real list) list"

text \<open>The run configuration \<open>config.run_cfg\<close>: the integer-valued settings by name.\<close>
type_synonym config = "(string \<times> int) list"

datatype pyobj = StateDict state_dict | ConfigDict config | IntObj int

text \<open>The object handed to \<open>torch.save\<close>: a dict with string keys.\<close>
type_synonym save_obj = "(string \<times> pyobj) list"

datatype error = AssertionError string | ValueError string | ZeroDivisionError string

text \<open>
  The effects of a run. \<open>LoopBody start_iters\<close> marks the entry into the body of the
  \<open>for\<close> loop of \<open>train\<close>; the other events are the calls the source makes.
\<close>
datatype event =
    LoopBody int
  | TrainIters int
  | LogStats string val_log
  | EvalEpoch string int
  | SaveCheckpoint int bool
  | TorchSave string save_obj
  | Barrier
  | Evaluate

text \<open>
  What \<open>RunnerBase.__init__\<close> and the environment provide: the configuration, the
  properties \<open>evaluate_only\<close>, \<open>valid_splits\<close> and \<open>output_dir\<close>, the result of
  \<open>is_main_process()\<close> for this process, and the two delegated procedures.
  \<open>eval_epoch split_name end_iters\<close> is the validation log of the call
  \<open>self.eval_epoch(split_name=split_name, cur_epoch=self._progress(end_iters))\<close>,
  \<open>None\<close> when it returns \<open>None\<close>. \<open>task_train_iters start_iters (model, optimizer)\<close>
  is the effect of \<open>self.task.train_iters\<close> on the two state dicts, with the
  statistics it returns.
\<close>
record runner_base =
  config :: config
  evaluate_only :: bool
  valid_splits :: "string list"
  output_dir :: string
  is_main_process :: bool
  eval_epoch :: "string \<Rightarrow> int \<Rightarrow> val_log option"
  task_train_iters :: "int \<Rightarrow> state_dict \<times> state_dict \<Rightarrow> (state_dict \<times> state_dict) \<times> val_log"

record runner = runner_base +
  max_iters :: int
  iters_per_inner_epoch :: int

text \<open>
  The mutable state of a run: the locals \<open>best_agg_metric\<close> and \<open>best_iters\<close> of
  \<open>train\<close>, the state dicts of the model and the optimizer, and the effects so far.
\<close>
record state =
  best_agg_metric :: real
  best_iters :: int
  model_sd :: state_dict
  optimizer_sd :: state_dict
  trace :: "event list"

subsection \<open>Python library functions used by the runner\<close>

text \<open>\<open>run_cfg.get(key, default)\<close>.\<close>
definition cfg_get :: "config \<Rightarrow> string \<Rightarrow> int \<Rightarrow> int" where
  "cfg_get cfg key dflt = (case map_of cfg key of None \<Rightarrow> dflt | Some v \<Rightarrow> v)"

text \<open>The length of \<open>range(start, stop, step)\<close> for a non-zero step, as CPython computes it.\<close>
definition range_len :: "int \<Rightarrow> int \<Rightarrow> int \<Rightarrow> nat" where
  "range_len start stop step =
     (if 0 < step \<and> start < stop then nat ((stop - start - 1) div step + 1)
      else if step < 0 \<and> stop < start then nat ((start - stop - 1) div (- step) + 1)
      else 0)"

text \<open>\<open>range(start, stop, step)\<close> as the list of its elements; a zero step raises.\<close>
definition py_range :: "int \<Rightarrow> int \<Rightarrow> int \<Rightarrow> error + int list" where
  "py_range start stop step =
     (if step = 0 then Inl (ValueError ''range() arg 3 must not be zero'')
      else Inr (map (\<lambda>i. start + int i * step) [0..<range_len start stop step]))"

text \<open>\<open>"{}".format(n)\<close> for an integer: its decimal digits, with a minus sign when negative.\<close>
definition digit_char :: "nat \<Rightarrow> char" where
  "digit_char d = ''0123456789'' ! d"

function str_nat :: "nat \<Rightarrow> string" where
  "str_nat n = (if n < 10 then [digit_char n] else str_nat (n div 10) @ [digit_char (n mod 10)])"
  by pat_completeness auto
termination
  by (relation "measure id") auto

definition str_int :: "int \<Rightarrow> string" where
  "str_int i = (if i < 0 then CHR ''-'' # str_nat (nat (- i)) else str_nat (nat i))"

text \<open>\<open>os.path.join(a, b)\<close> on a POSIX system.\<close>
definition path_join :: "string \<Rightarrow> string \<Rightarrow> string" where
  "path_join a b =
     (if b \<noteq> [] \<and> hd b = CHR ''/'' then b
      else if a = [] \<or> last a = CHR ''/'' then a @ b
      else a @ ''/'' @ b)"

subsection \<open>\<open>RunnerIter.__init__\<close>\<close>

text \<open>
  After \<open>super().__init__\<close> the two iteration budgets are read from the run configuration
  with default \<open>-1\<close>, and each is asserted to be positive, \<open>max_iters\<close> first.
\<close>
definition init :: "runner_base \<Rightarrow> error + runner" where
  "init b =
     (let mi = cfg_get (config b) ''max_iters'' (- 1) in
      if \<not> 0 < mi then Inl (AssertionError ''max_iters must be greater than 0.'')
      else
        let ipe = cfg_get (config b) ''iters_per_inner_epoch'' (- 1) in
        if \<not> 0 < ipe then Inl (AssertionError ''iters_per_inner_epoch must be greater than 0.'')
        else Inr \<lparr>config = config b, evaluate_only = evaluate_only b,
                  valid_splits = valid_splits b, output_dir = output_dir b,
                  is_main_process = is_main_process b, eval_epoch = eval_epoch b,
                  task_train_iters = task_train_iters b,
                  max_iters = mi, iters_per_inner_epoch = ipe\<rparr>)"

text \<open>
  The property \<open>max_epoch\<close>: \<open>int(max_iters / iters_per_inner_epoch)\<close>, a true division
  truncated towards zero; dividing by zero raises.
\<close>
definition max_epoch :: "runner \<Rightarrow> error + int" where
  "max_epoch r =
     (if iters_per_inner_epoch r = 0 then Inl (ZeroDivisionError ''division by zero'')
      else
        let q = real_of_int (max_iters r) / real_of_int (iters_per_inner_epoch r)
        in Inr (if 0 \<le> q then \<lfloor>q\<rfloor> else \<lceil>q\<rceil>))"

subsection \<open>\<open>RunnerIter.save_checkpoint\<close>\<close>

definition emit :: "event \<Rightarrow> state \<Rightarrow> state" where
  "emit e s = s\<lparr>trace := trace s @ [e]\<rparr>"

text \<open>The file a checkpoint goes to.\<close>
definition checkpoint_path :: "runner \<Rightarrow> int \<Rightarrow> bool \<Rightarrow> string" where
  "checkpoint_path r cur_iters is_best =
     path_join (output_dir r)
       (''checkpoint_'' @ (if is_best then ''best'' else str_int cur_iters) @ ''.pth'')"

text \<open>
  Modelled from the spec: the decorator \<open>main_process\<close> of \<open>lavis.common.dist_utils\<close>
  is not part of the sources at hand; by the specification checkpoint writing is
  restricted to the designated main process and is a no-op on every other process.
  The body is the source's: the object saved and the path it is saved to.
\<close>
definition save_checkpoint :: "runner \<Rightarrow> int \<Rightarrow> bool \<Rightarrow> state \<Rightarrow> state" where
  "save_checkpoint r cur_iters is_best s =
     (let s1 = emit (SaveCheckpoint cur_iters is_best) s in
      if is_main_process r then
        let save_obj = [(''model'', StateDict (model_sd s1)),
                        (''optimizer'', StateDict (optimizer_sd s1)),
                        (''config'', ConfigDict (config r)),
                        (''iters'', IntObj cur_iters)];
            save_to = checkpoint_path r cur_iters is_best
        in emit (TorchSave save_to save_obj) s1
      else s1)"

subsection \<open>\<open>RunnerIter.train\<close>\<close>

text \<open>The training phase of one inner epoch: \<open>train_iters\<close>, then \<open>log_stats\<close>.\<close>
definition train_phase :: "runner \<Rightarrow> int \<Rightarrow> state \<Rightarrow> state" where
  "train_phase r start_iters s =
     (case task_train_iters r start_iters (model_sd s, optimizer_sd s) of
        ((m, opt), train_stats) \<Rightarrow>
          emit (LogStats ''train'' train_stats)
            (emit (TrainIters start_iters) (s\<lparr>model_sd := m, optimizer_sd := opt\<rparr>)))"

text \<open>
  The body of the loop over the validation splits, for one split. An assertion that
  fails ends the run: the result is \<open>Inl\<close> of the error and the state reached.
\<close>
definition val_split :: "runner \<Rightarrow> int \<Rightarrow> string \<Rightarrow> state \<Rightarrow> (error \<times> state) + state" where
  "val_split r end_iters split_name s =
     (let s1 = emit (EvalEpoch split_name end_iters) s in
      case eval_epoch r split_name end_iters of
        None \<Rightarrow> Inr s1
      | Some val_log \<Rightarrow>
          if is_main_process r then
            (case map_of val_log ''agg_metrics'' of
               None \<Rightarrow> Inl (AssertionError ''No agg_metrics found in validation log.'', s1)
             | Some agg_metrics \<Rightarrow>
                 let s2 = (if best_agg_metric s1 < agg_metrics \<and> split_name = ''val''
                           then save_checkpoint r end_iters True
                                  (s1\<lparr>best_iters := end_iters, best_agg_metric := agg_metrics\<rparr>)
                           else s1);
                     val_log' = AList.update ''best_iters'' (real_of_int (best_iters s2)) val_log
                 in Inr (emit (LogStats split_name val_log') s2))
          else Inr s1)"

text \<open>\<open>for split_name in self.valid_splits\<close>.\<close>
fun eval_phase :: "runner \<Rightarrow> int \<Rightarrow> string list \<Rightarrow> state \<Rightarrow> (error \<times> state) + state" where
  "eval_phase r end_iters [] s = Inr s"
| "eval_phase r end_iters (split_name # rest) s =
     (case val_split r end_iters split_name s of
        Inl e \<Rightarrow> Inl e
      | Inr s' \<Rightarrow> eval_phase r end_iters rest s')"

text \<open>The loop body up to the test of \<open>evaluate_only\<close> that ends it.\<close>
definition inner_epoch :: "runner \<Rightarrow> int \<Rightarrow> state \<Rightarrow> (error \<times> state) + state" where
  "inner_epoch r start_iters s =
     (let end_iters = start_iters + iters_per_inner_epoch r;
          s0 = emit (LoopBody start_iters) s;
          s1 = (if \<not> evaluate_only r then train_phase r start_iters s0 else s0)
      in if 0 < length (valid_splits r) then eval_phase r end_iters (valid_splits r) s1
         else if \<not> evaluate_only r then Inr (save_checkpoint r end_iters False s1)
         else Inr s1)"

text \<open>
  \<open>for start_iters in range(...)\<close>: after the body, \<open>break\<close> in evaluate-only mode,
  otherwise \<open>dist.barrier()\<close> and the next element.
\<close>
fun inner_epochs :: "runner \<Rightarrow> int list \<Rightarrow> state \<Rightarrow> (error \<times> state) + state" where
  "inner_epochs r [] s = Inr s"
| "inner_epochs r (start_iters # rest) s =
     (case inner_epoch r start_iters s of
        Inl e \<Rightarrow> Inl e
      | Inr s' \<Rightarrow> if evaluate_only r then Inr s' else inner_epochs r rest (emit Barrier s'))"

text \<open>The state on entry to \<open>train\<close>, given the state dicts of the model and the optimizer.\<close>
definition start_state :: "state_dict \<Rightarrow> state_dict \<Rightarrow> state" where
  "start_state m opt =
     \<lparr>best_agg_metric = 0, best_iters = 0, model_sd = m, optimizer_sd = opt, trace = []\<rparr>"

definition train :: "runner \<Rightarrow> state_dict \<Rightarrow> state_dict \<Rightarrow> (error \<times> state) + state" where
  "train r m opt =
     (let s = start_state m opt in
      case py_range 0 (max_iters r) (iters_per_inner_epoch r) of
        Inl e \<Rightarrow> Inl (e, s)
      | Inr starts \<Rightarrow>
          (case inner_epochs r starts s of
             Inl e \<Rightarrow> Inl e
           | Inr s' \<Rightarrow> Inr (emit Evaluate s')))"

text \<open>The state a run ends in, whether it returned or raised.\<close>
fun final_state :: "(error \<times> state) + state \<Rightarrow> state" where
  "final_state (Inl (e, s)) = s"
| "final_state (Inr s) = s"

subsection \<open>Reading a trace\<close>

text \<open>The start offsets of the loop bodies that were entered, in order.\<close>
fun loop_starts :: "event list \<Rightarrow> int list" where
  "loop_starts [] = []"
| "loop_starts (LoopBody st # tr) = st # loop_starts tr"
| "loop_starts (ev # tr) = loop_starts tr"

text \<open>The calls of \<open>save_checkpoint\<close>, as pairs of iteration count and \<open>is_best\<close>.\<close>
fun save_calls :: "event list \<Rightarrow> (int \<times> bool) list" where
  "save_calls [] = []"
| "save_calls (SaveCheckpoint c b # tr) = (c, b) # save_calls tr"
| "save_calls (ev # tr) = save_calls tr"

text \<open>The iteration counts of the calls \<open>save_checkpoint(_, is_best=True)\<close>.\<close>
definition best_save_iters :: "event list \<Rightarrow> int list" where
  "best_save_iters tr = map fst (filter snd (save_calls tr))"

text \<open>The files written by \<open>torch.save\<close>.\<close>
fun saved_files :: "event list \<Rightarrow> string list" where
  "saved_files [] = []"
| "saved_files (TorchSave p obj # tr) = p # saved_files tr"
| "saved_files (ev # tr) = saved_files tr"

text \<open>Loop entries together with the checkpoint calls.\<close>
fun epoch_saves :: "event list \<Rightarrow> event list" where
  "epoch_saves [] = []"
| "epoch_saves (LoopBody st # tr) = LoopBody st # epoch_saves tr"
| "epoch_saves (SaveCheckpoint c b # tr) = SaveCheckpoint c b # epoch_saves tr"
| "epoch_saves (ev # tr) = epoch_saves tr"

text \<open>Loop entries together with the barrier waits and the final evaluation.\<close>
fun sync_view :: "event list \<Rightarrow> event list" where
  "sync_view [] = []"
| "sync_view (LoopBody st # tr) = LoopBody st # sync_view tr"
| "sync_view (Barrier # tr) = Barrier # sync_view tr"
| "sync_view (Evaluate # tr) = Evaluate # sync_view tr"
| "sync_view (ev # tr) = sync_view tr"

text \<open>
  The aggregate metric of a validation log returned for a split at an iteration count,
  when there is a log and it has the key.
\<close>
definition agg_of :: "runner \<Rightarrow> string \<Rightarrow> int \<Rightarrow> real option" where
  "agg_of r split_name end_iters =
     (case eval_epoch r split_name end_iters of
        None \<Rightarrow> None
      | Some val_log \<Rightarrow> map_of val_log ''agg_metrics'')"

text \<open>The validation returned a log without the key \<open>agg_metrics\<close>.\<close>
definition lacks_agg :: "runner \<Rightarrow> string \<Rightarrow> int \<Rightarrow> bool" where
  "lacks_agg r split_name end_iters =
     (case eval_epoch r split_name end_iters of
        None \<Rightarrow> False
      | Some val_log \<Rightarrow> map_of val_log ''agg_metrics'' = None)"

text \<open>
  The aggregate metrics observed on the split \<open>val\<close>, each with the iteration count of
  its validation pass, in the order of the calls of \<open>eval_epoch\<close>.
\<close>
fun val_observations :: "runner \<Rightarrow> event list \<Rightarrow> (int \<times> real) list" where
  "val_observations r [] = []"
| "val_observations r (EvalEpoch sp e # tr) =
     (if sp = ''val'' then (case agg_of r sp e of None \<Rightarrow> [] | Some m \<Rightarrow> [(e, m)]) else [])
     @ val_observations r tr"
| "val_observations r (ev # tr) = val_observations r tr"

text \<open>No validation call of the trace returned a log without the key.\<close>
fun all_have_agg :: "runner \<Rightarrow> event list \<Rightarrow> bool" where
  "all_have_agg r [] = True"
| "all_have_agg r (EvalEpoch sp e # tr) = (\<not> lacks_agg r sp e \<and> all_have_agg r tr)"
| "all_have_agg r (ev # tr) = all_have_agg r tr"

subsection \<open>The specification's reading of the best checkpoint\<close>

text \<open>
  In the specification's words a best checkpoint is written exactly when a newly
  observed metric strictly exceeds all previously observed values. Given the values
  seen before, \<open>spec_best_iters\<close> lists the iteration counts of the observations
  that do.
\<close>
fun spec_best_iters :: "real list \<Rightarrow> (int \<times> real) list \<Rightarrow> int list" where
  "spec_best_iters prev [] = []"
| "spec_best_iters prev ((e, m) # obs) =
     (if list_all (\<lambda>p. p < m) prev then [e] else []) @ spec_best_iters (prev @ [m]) obs"

text \<open>The start offsets the loop of \<open>train\<close> ranges over.\<close>
definition inner_epoch_starts :: "runner \<Rightarrow> int list" where
  "inner_epoch_starts r =
     (case py_range 0 (max_iters r) (iters_per_inner_epoch r) of Inl e \<Rightarrow> [] | Inr starts \<Rightarrow> starts)"

text \<open>
  The invariant of the loop behind the best checkpoint: the tracked metric is the
  greatest of 0 and the \<open>val\<close> metrics observed so far, and the best checkpoints saved
  so far are those of the observations that exceeded 0 and all earlier ones.
\<close>
definition best_tracked :: "runner \<Rightarrow> state \<Rightarrow> bool" where
  "best_tracked r s \<longleftrightarrow>
     best_agg_metric s = fold max (map snd (val_observations r (trace s))) 0
     \<and> best_save_iters (trace s) = spec_best_iters [0] (val_observations r (trace s))"

subsection \<open>The outcome of a run on the main process\<close>


subsection \<open>Reading back a formatted integer\<close>

definition digit_val :: "char \<Rightarrow> nat" where
  "digit_val c = of_char c - 48"

definition nat_of_str :: "string \<Rightarrow> nat" where
  "nat_of_str cs = foldl (\<lambda>a c. 10 * a + digit_val c) 0 cs"

subsection \<open>Example runs\<close>

text \<open>A base object with no validation split; the other examples vary it.\<close>
definition example_base :: runner_base where
  "example_base =
     \<lparr>config = [(''max_iters'', 4), (''iters_per_inner_epoch'', 2)],
      evaluate_only = False, valid_splits = [], output_dir = ''out'',
      is_main_process = True,
      eval_epoch = (\<lambda>split_name end_iters. None),
      task_train_iters = (\<lambda>start_iters mo. (mo, []))\<rparr>"

definition example_runner :: runner where
  "example_runner =
     \<lparr>config = [(''max_iters'', 4), (''iters_per_inner_epoch'', 2)],
      evaluate_only = False, valid_splits = [], output_dir = ''out'',
      is_main_process = True,
      eval_epoch = (\<lambda>split_name end_iters. None),
      task_train_iters = (\<lambda>start_iters mo. (mo, [])),
      max_iters = 4, iters_per_inner_epoch = 2\<rparr>"

text \<open>
  Two validation splits, three inner epochs. On \<open>val\<close> the metrics are 1, 3 and 2 at
  the iteration counts 2, 4 and 6; on \<open>test\<close> the metric is always 5.
\<close>
definition val_runner :: runner where
  "val_runner =
     \<lparr>config = [(''max_iters'', 6), (''iters_per_inner_epoch'', 2)],
      evaluate_only = False, valid_splits = [''val'', ''test''], output_dir = ''out'',
      is_main_process = True,
      eval_epoch = (\<lambda>split_name end_iters.
         if split_name = ''val''
         then (if end_iters = 2 then Some [(''agg_metrics'', 1)]
               else if end_iters = 4 then Some [(''agg_metrics'', 3)]
               else if end_iters = 6 then Some [(''agg_metrics'', 2)]
               else None)
         else Some [(''agg_metrics'', 5)]),
      task_train_iters = (\<lambda>start_iters mo. (mo, [])),
      max_iters = 6, iters_per_inner_epoch = 2\<rparr>"

text \<open>One inner epoch whose only validation metric, on \<open>val\<close>, is negative.\<close>
definition negative_runner :: runner where
  "negative_runner =
     \<lparr>config = [(''max_iters'', 1), (''iters_per_inner_epoch'', 1)],
      evaluate_only = False, valid_splits = [''val''], output_dir = ''out'',
      is_main_process = True,
      eval_epoch = (\<lambda>split_name end_iters. Some [(''agg_metrics'', - 1)]),
      task_train_iters = (\<lambda>start_iters mo. (mo, [])),
      max_iters = 1, iters_per_inner_epoch = 1\<rparr>"


section \<open>Construction\<close>

lemma cfg_get_absent: "map_of cfg key = None \<Longrightarrow> cfg_get cfg key dflt = dflt"
  by (simp add: cfg_get_def)

lemma cfg_get_present: "map_of cfg key = Some v \<Longrightarrow> cfg_get cfg key dflt = v"
  by (simp add: cfg_get_def)

lemma init_positive_succeeds:
  assumes "map_of (config b) ''max_iters'' = Some mi" and "0 < mi"
    and "map_of (config b) ''iters_per_inner_epoch'' = Some ipe" and "0 < ipe"
  shows "\<exists>r. init b = Inr r \<and> max_iters r = mi \<and> iters_per_inner_epoch r = ipe"
  using assms by (simp add: init_def cfg_get_def)

text \<open>
  C7. Constructing a runner whose configuration has no \<open>max_iters\<close> (the default \<open>-1\<close>
  is taken) or a non-positive one, or no \<open>iters_per_inner_epoch\<close> or a non-positive
  one, fails with an assertion error in \<open>__init__\<close>: no runner object comes into
  being, so no training step can run.
\<close>
theorem init_nonpositive_fails:
  assumes "map_of (config b) ''max_iters'' = None
           \<or> (\<exists>v. map_of (config b) ''max_iters'' = Some v \<and> v \<le> 0)
           \<or> map_of (config b) ''iters_per_inner_epoch'' = None
           \<or> (\<exists>v. map_of (config b) ''iters_per_inner_epoch'' = Some v \<and> v \<le> 0)"
  shows "init b = Inl (AssertionError ''max_iters must be greater than 0.'')
         \<or> init b = Inl (AssertionError ''iters_per_inner_epoch must be greater than 0.'')"
  using assms by (auto simp: init_def cfg_get_def Let_def split: option.splits)

theorem init_nonpositive_fails_witness:
  "(\<exists>v. map_of (config (example_base\<lparr>config := [(''max_iters'', 0), (''iters_per_inner_epoch'', 2)]\<rparr>))
          ''max_iters'' = Some v \<and> v \<le> 0)
   \<and> init (example_base\<lparr>config := [(''max_iters'', 0), (''iters_per_inner_epoch'', 2)]\<rparr>)
       = Inl (AssertionError ''max_iters must be greater than 0.'')"
  using init_nonpositive_fails
          [of "example_base\<lparr>config := [(''max_iters'', 0), (''iters_per_inner_epoch'', 2)]\<rparr>"]
  by (simp add: cfg_get_def init_def)

section \<open>Effects of the single operations\<close>

lemma emit_simps [simp]:
  "trace (emit ev s) = trace s @ [ev]"
  "best_agg_metric (emit ev s) = best_agg_metric s"
  "best_iters (emit ev s) = best_iters s"
  "model_sd (emit ev s) = model_sd s"
  "optimizer_sd (emit ev s) = optimizer_sd s"
  by (simp_all add: emit_def)

lemma save_checkpoint_trace:
  "trace (save_checkpoint r c b s) =
     trace s @ SaveCheckpoint c b #
       (if is_main_process r
        then [TorchSave (checkpoint_path r c b)
                [(''model'', StateDict (model_sd s)), (''optimizer'', StateDict (optimizer_sd s)),
                 (''config'', ConfigDict (config r)), (''iters'', IntObj c)]]
        else [])"
  by (simp add: save_checkpoint_def Let_def)

lemma save_checkpoint_fields [simp]:
  "best_agg_metric (save_checkpoint r c b s) = best_agg_metric s"
  "best_iters (save_checkpoint r c b s) = best_iters s"
  "model_sd (save_checkpoint r c b s) = model_sd s"
  "optimizer_sd (save_checkpoint r c b s) = optimizer_sd s"
  by (simp_all add: save_checkpoint_def Let_def)

lemma train_phase_trace:
  "trace (train_phase r st s) =
     trace s @ [TrainIters st,
                LogStats ''train'' (snd (task_train_iters r st (model_sd s, optimizer_sd s)))]"
  by (simp add: train_phase_def split: prod.splits)

lemma train_phase_best [simp]:
  "best_agg_metric (train_phase r st s) = best_agg_metric s"
  "best_iters (train_phase r st s) = best_iters s"
  by (simp_all add: train_phase_def split: prod.splits)

section \<open>Formatting integers and checkpoint paths\<close>

lemma digit_cases:
  "d < (10::nat) \<Longrightarrow> d = 0 \<or> d = 1 \<or> d = 2 \<or> d = 3 \<or> d = 4 \<or> d = 5 \<or> d = 6 \<or> d = 7 \<or> d = 8 \<or> d = 9"
  by arith

lemma digit_val_digit_char: "d < 10 \<Longrightarrow> digit_val (digit_char d) = d"
  by (drule digit_cases) (auto simp: digit_val_def digit_char_def)

lemma digit_char_not_minus: "d < 10 \<Longrightarrow> digit_char d \<noteq> CHR ''-''"
  by (drule digit_cases) (auto simp: digit_char_def)

lemma digit_char_not_t: "d < 10 \<Longrightarrow> digit_char d \<noteq> CHR ''t''"
  by (drule digit_cases) (auto simp: digit_char_def)

declare str_nat.simps [simp del]

lemma nat_of_str_snoc: "nat_of_str (cs @ [c]) = 10 * nat_of_str cs + digit_val c"
  by (simp add: nat_of_str_def)

lemma nat_of_str_str_nat: "nat_of_str (str_nat n) = n"
proof (induction n rule: str_nat.induct)
  case (1 n)
  show ?case
  proof (cases "n < 10")
    case True
    then show ?thesis
      by (simp add: str_nat.simps [of n] nat_of_str_def digit_val_digit_char)
  next
    case False
    with 1 have "nat_of_str (str_nat (n div 10)) = n div 10" by simp
    with False show ?thesis
      by (simp add: str_nat.simps [of n] nat_of_str_snoc digit_val_digit_char)
  qed
qed

lemma str_nat_inject: "str_nat m = str_nat n \<Longrightarrow> m = n"
  by (metis nat_of_str_str_nat)

lemma str_nat_hd: "str_nat n \<noteq> [] \<and> hd (str_nat n) \<noteq> CHR ''-''"
proof (induction n rule: str_nat.induct)
  case (1 n)
  show ?case
  proof (cases "n < 10")
    case True
    then show ?thesis
      by (simp add: str_nat.simps [of n] digit_char_not_minus)
  next
    case False
    with 1 have "str_nat (n div 10) \<noteq> [] \<and> hd (str_nat (n div 10)) \<noteq> CHR ''-''" by simp
    with False show ?thesis
      by (simp add: str_nat.simps [of n])
  qed
qed

lemma str_int_inject: "str_int i = str_int j \<Longrightarrow> i = j"
proof -
  assume eq: "str_int i = str_int j"
  have neg: "str_int k = CHR ''-'' # str_nat (nat (- k))" if "k < 0" for k
    using that by (simp add: str_int_def)
  have pos: "str_int k = str_nat (nat k)" if "\<not> k < 0" for k
    using that by (simp add: str_int_def)
  have hd_pos: "hd (str_int k) \<noteq> CHR ''-''" if "\<not> k < 0" for k
    using that str_nat_hd [of "nat k"] by (simp add: pos)
  have hd_neg: "hd (str_int k) = CHR ''-''" if "k < 0" for k
    using that by (simp add: neg)
  show ?thesis
  proof (cases "i < 0")
    case True
    then have "j < 0" using eq hd_pos [of j] hd_neg [of i] by metis
    with True eq have "str_nat (nat (- i)) = str_nat (nat (- j))"
      by (simp add: neg)
    then have "nat (- i) = nat (- j)" by (rule str_nat_inject)
    with True \<open>j < 0\<close> show ?thesis by simp
  next
    case False
    then have "\<not> j < 0" using eq hd_pos [of i] hd_neg [of j] by metis
    with False eq have "str_nat (nat i) = str_nat (nat j)"
      by (simp add: pos)
    then have "nat i = nat j" by (rule str_nat_inject)
    with False \<open>\<not> j < 0\<close> show ?thesis by simp
  qed
qed

lemma str_int_not_best: "str_int i \<noteq> ''best''"
proof
  assume eq: "str_int i = ''best''"
  show False
  proof (cases "i < 0")
    case True
    with eq show False by (simp add: str_int_def)
  next
    case False
    with eq have e: "str_nat (nat i) = ''best''" by (simp add: str_int_def)
    show False
    proof (cases "nat i < 10")
      case True
      with e show False by (simp add: str_nat.simps [of "nat i"])
    next
      case False
      with e have "str_nat (nat i div 10) @ [digit_char (nat i mod 10)] = ''bes'' @ [CHR ''t'']"
        by (simp add: str_nat.simps [of "nat i"])
      then have "digit_char (nat i mod 10) = CHR ''t''" by (simp only: append1_eq_conv)
      then show False using digit_char_not_t [of "nat i mod 10"] by simp
    qed
  qed
qed

lemma path_join_checkpoint:
  "path_join d (''checkpoint_'' @ x) =
     (if d = [] \<or> last d = CHR ''/'' then d else d @ ''/'') @ ''checkpoint_'' @ x"
  by (simp add: path_join_def)

lemma checkpoint_path_eq_iff:
  "checkpoint_path r c b = checkpoint_path r c' b' \<longleftrightarrow>
     (if b then ''best'' else str_int c) = (if b' then ''best'' else str_int c')"
  by (simp add: checkpoint_path_def path_join_checkpoint del: append.simps)

section \<open>Checkpoint files\<close>

text \<open>
  C9. A call \<open>save_checkpoint(cur_iters, is_best)\<close> hands to \<open>torch.save\<close>, on the main
  process (elsewhere the decorator makes the call write nothing), the path
  \<open>output_dir/checkpoint_<label>.pth\<close>, where the label is \<open>best\<close> when \<open>is_best\<close>
  holds and the decimal iteration count otherwise, and an object with exactly the keys
  \<open>model\<close>, \<open>optimizer\<close>, \<open>config\<close> and \<open>iters\<close>, holding the two state dicts, the
  configuration and \<open>cur_iters\<close>. Hence all best saves go to one file, non-best saves
  of different iteration counts go to different files, and none of these is the best file.
\<close>
theorem save_checkpoint_file:
  "trace (save_checkpoint r cur_iters is_best s) =
     trace s @ SaveCheckpoint cur_iters is_best #
       (if is_main_process r
        then [TorchSave
                (path_join (output_dir r)
                   (''checkpoint_'' @ (if is_best then ''best'' else str_int cur_iters) @ ''.pth''))
                [(''model'', StateDict (model_sd s)), (''optimizer'', StateDict (optimizer_sd s)),
                 (''config'', ConfigDict (config r)), (''iters'', IntObj cur_iters)]]
        else [])
   \<and> checkpoint_path r cur_iters True = checkpoint_path r cur_iters' True
   \<and> (checkpoint_path r cur_iters False = checkpoint_path r cur_iters' False
        \<longleftrightarrow> cur_iters = cur_iters')
   \<and> checkpoint_path r cur_iters False \<noteq> checkpoint_path r cur_iters' True"
proof -
  have "checkpoint_path r cur_iters False = checkpoint_path r cur_iters' False
          \<longleftrightarrow> cur_iters = cur_iters'"
    using str_int_inject [of cur_iters cur_iters'] by (auto simp: checkpoint_path_eq_iff)
  moreover have "checkpoint_path r cur_iters False \<noteq> checkpoint_path r cur_iters' True"
    by (simp add: checkpoint_path_eq_iff str_int_not_best)
  moreover have "checkpoint_path r cur_iters True = checkpoint_path r cur_iters' True"
    by (simp add: checkpoint_path_eq_iff)
  ultimately show ?thesis
    by (simp add: save_checkpoint_trace checkpoint_path_def)
qed

theorem save_checkpoint_file_witness:
  "trace (save_checkpoint example_runner 4 False (start_state [] [])) =
     [SaveCheckpoint 4 False,
      TorchSave ''out/checkpoint_4.pth''
        [(''model'', StateDict []), (''optimizer'', StateDict []),
         (''config'', ConfigDict [(''max_iters'', 4), (''iters_per_inner_epoch'', 2)]),
         (''iters'', IntObj 4)]]
   \<and> trace (save_checkpoint example_runner 2 True (start_state [] [])) =
     [SaveCheckpoint 2 True,
      TorchSave ''out/checkpoint_best.pth''
        [(''model'', StateDict []), (''optimizer'', StateDict []),
         (''config'', ConfigDict [(''max_iters'', 4), (''iters_per_inner_epoch'', 2)]),
         (''iters'', IntObj 2)]]"
  using save_checkpoint_file [of example_runner 4 False "start_state [] []" 4]
    save_checkpoint_file [of example_runner 2 True "start_state [] []" 2]
  by (simp add: example_runner_def start_state_def path_join_def str_int_def
      str_nat.simps [of 4] digit_char_def)

section \<open>Validation of one split\<close>



section \<open>The best metric never decreases\<close>

lemma val_split_best:
  "best_agg_metric s \<le> best_agg_metric (final_state (val_split r e sp s))
   \<and> (best_agg_metric (final_state (val_split r e sp s)) \<noteq> best_agg_metric s
        \<longrightarrow> sp = ''val'' \<and> best_agg_metric s < best_agg_metric (final_state (val_split r e sp s)))"
  by (simp add: val_split_def Let_def split: option.splits)

lemma eval_phase_best:
  "best_agg_metric s \<le> best_agg_metric (final_state (eval_phase r e sps s))"
proof (induction sps arbitrary: s)
  case Nil
  show ?case by simp
next
  case (Cons sp sps)
  show ?case
  proof (cases "val_split r e sp s")
    case (Inl a)
    with val_split_best [of s r e sp] show ?thesis by simp
  next
    case (Inr s')
    with val_split_best [of s r e sp] have "best_agg_metric s \<le> best_agg_metric s'" by simp
    also have "\<dots> \<le> best_agg_metric (final_state (eval_phase r e sps s'))" by (rule Cons.IH)
    finally show ?thesis using Inr by simp
  qed
qed

lemma inner_epoch_best:
  "best_agg_metric s \<le> best_agg_metric (final_state (inner_epoch r st s))"
proof -
  have "best_agg_metric s \<le> best_agg_metric (final_state (eval_phase r e sps (train_phase r st (emit ev s))))"
    for e sps ev
    using eval_phase_best [of "train_phase r st (emit ev s)" r e sps] by simp
  moreover have "best_agg_metric s \<le> best_agg_metric (final_state (eval_phase r e sps (emit ev s)))"
    for e sps ev
    using eval_phase_best [of "emit ev s" r e sps] by simp
  ultimately show ?thesis
    by (simp add: inner_epoch_def Let_def)
qed

lemma inner_epochs_best:
  "best_agg_metric s \<le> best_agg_metric (final_state (inner_epochs r sts s))"
proof (induction sts arbitrary: s)
  case Nil
  show ?case by simp
next
  case (Cons st sts)
  show ?case
  proof (cases "inner_epoch r st s")
    case (Inl a)
    with inner_epoch_best [of s r st] show ?thesis by simp
  next
    case (Inr s')
    with inner_epoch_best [of s r st] have le: "best_agg_metric s \<le> best_agg_metric s'" by simp
    show ?thesis
    proof (cases "evaluate_only r")
      case True
      with Inr le show ?thesis by simp
    next
      case False
      have "best_agg_metric s' \<le> best_agg_metric (final_state (inner_epochs r sts (emit Barrier s')))"
        using Cons.IH [of "emit Barrier s'"] by simp
      with le False Inr show ?thesis by simp
    qed
  qed
qed

text \<open>
  C6. The tracked best metric never decreases during \<open>train\<close>. Validating one split
  leaves it unchanged or, only for the split \<open>val\<close>, replaces it by a strictly greater
  value; training, saving a checkpoint and every other effect leave it unchanged;
  hence it does not decrease over the loop over the splits, over an inner epoch, or
  over any number of inner epochs, and it ends at least at its initial value 0.
\<close>
theorem best_agg_metric_monotone:
  "best_agg_metric s \<le> best_agg_metric (final_state (val_split r end_iters split_name s))
   \<and> (best_agg_metric (final_state (val_split r end_iters split_name s)) \<noteq> best_agg_metric s
        \<longrightarrow> split_name = ''val''
            \<and> best_agg_metric s < best_agg_metric (final_state (val_split r end_iters split_name s)))
   \<and> best_agg_metric (train_phase r start_iters s) = best_agg_metric s
   \<and> best_agg_metric (save_checkpoint r cur_iters is_best s) = best_agg_metric s
   \<and> best_agg_metric (emit ev s) = best_agg_metric s
   \<and> best_agg_metric s \<le> best_agg_metric (final_state (eval_phase r end_iters splits s))
   \<and> best_agg_metric s \<le> best_agg_metric (final_state (inner_epoch r start_iters s))
   \<and> best_agg_metric s \<le> best_agg_metric (final_state (inner_epochs r starts s))
   \<and> 0 \<le> best_agg_metric (final_state (train r m opt))"
proof -
  have "0 \<le> best_agg_metric (final_state (train r m opt))"
  proof (cases "py_range 0 (max_iters r) (iters_per_inner_epoch r)")
    case (Inl e)
    then show ?thesis by (simp add: train_def start_state_def)
  next
    case (Inr sts)
    have le: "0 \<le> best_agg_metric (final_state (inner_epochs r sts (start_state m opt)))"
      using inner_epochs_best [of "start_state m opt" r sts] by (simp add: start_state_def)
    show ?thesis
    proof (cases "inner_epochs r sts (start_state m opt)")
      case (Inl a)
      with le Inr show ?thesis by (simp add: train_def)
    next
      case (Inr s')
      with le \<open>py_range 0 (max_iters r) (iters_per_inner_epoch r) = Inr sts\<close> show ?thesis
        by (simp add: train_def)
    qed
  qed
  then show ?thesis
    using val_split_best [of s r end_iters split_name] eval_phase_best [of s r end_iters splits]
      inner_epoch_best [of s r start_iters] inner_epochs_best [of s r starts]
    by simp
qed

theorem best_agg_metric_monotone_witness:
  "best_agg_metric (final_state (val_split val_runner 2 ''val'' (start_state [] [])))
     \<noteq> best_agg_metric (start_state [] [])
   \<and> best_agg_metric (start_state [] [])
       < best_agg_metric (final_state (val_split val_runner 2 ''val'' (start_state [] [])))"
  using best_agg_metric_monotone [of "start_state [] []" val_runner 2 "''val''"]
  by (simp add: val_runner_def start_state_def val_split_def)

section \<open>Reading the trace of a run\<close>

lemma loop_starts_append [simp]: "loop_starts (xs @ ys) = loop_starts xs @ loop_starts ys"
  by (induction xs rule: loop_starts.induct) simp_all

lemma save_calls_append [simp]: "save_calls (xs @ ys) = save_calls xs @ save_calls ys"
  by (induction xs rule: save_calls.induct) simp_all

lemma best_save_iters_append [simp]:
  "best_save_iters (xs @ ys) = best_save_iters xs @ best_save_iters ys"
  by (simp add: best_save_iters_def)

lemma saved_files_append [simp]: "saved_files (xs @ ys) = saved_files xs @ saved_files ys"
  by (induction xs rule: saved_files.induct) simp_all

lemma epoch_saves_append [simp]: "epoch_saves (xs @ ys) = epoch_saves xs @ epoch_saves ys"
  by (induction xs rule: epoch_saves.induct) simp_all

lemma sync_view_append [simp]: "sync_view (xs @ ys) = sync_view xs @ sync_view ys"
  by (induction xs rule: sync_view.induct) simp_all

lemma val_observations_append [simp]:
  "val_observations r (xs @ ys) = val_observations r xs @ val_observations r ys"
  by (induction r xs rule: val_observations.induct) simp_all

lemma all_have_agg_append [simp]:
  "all_have_agg r (xs @ ys) \<longleftrightarrow> all_have_agg r xs \<and> all_have_agg r ys"
  by (induction r xs rule: all_have_agg.induct) simp_all

lemma loop_starts_sync_view: "loop_starts (sync_view tr) = loop_starts tr"
  by (induction tr rule: sync_view.induct) simp_all

lemma count_barrier_sync_view: "count_list (sync_view tr) Barrier = count_list tr Barrier"
  by (induction tr rule: sync_view.induct) simp_all

lemma best_save_iters_simps [simp]:
  "best_save_iters [] = []"
  "best_save_iters (SaveCheckpoint c b # tr) = (if b then c # best_save_iters tr else best_save_iters tr)"
  "best_save_iters (LoopBody st # tr) = best_save_iters tr"
  "best_save_iters (TrainIters st # tr) = best_save_iters tr"
  "best_save_iters (LogStats sp lg # tr) = best_save_iters tr"
  "best_save_iters (EvalEpoch sp e # tr) = best_save_iters tr"
  "best_save_iters (TorchSave p obj # tr) = best_save_iters tr"
  "best_save_iters (Barrier # tr) = best_save_iters tr"
  "best_save_iters (Evaluate # tr) = best_save_iters tr"
  by (simp_all add: best_save_iters_def)

section \<open>Inner epochs and barriers\<close>

lemma val_split_sync:
  "sync_view (trace (final_state (val_split r e sp s))) = sync_view (trace s)"
  by (simp add: val_split_def Let_def save_checkpoint_trace split: option.splits)

lemma eval_phase_sync:
  "sync_view (trace (final_state (eval_phase r e sps s))) = sync_view (trace s)"
proof (induction sps arbitrary: s)
  case Nil
  show ?case by simp
next
  case (Cons sp sps)
  show ?case
  proof (cases "val_split r e sp s")
    case (Inl a)
    with val_split_sync [of r e sp s] show ?thesis by simp
  next
    case (Inr s')
    with val_split_sync [of r e sp s] Cons.IH [of s'] show ?thesis by simp
  qed
qed

lemma inner_epoch_sync:
  "sync_view (trace (final_state (inner_epoch r st s))) = sync_view (trace s) @ [LoopBody st]"
  by (simp add: inner_epoch_def Let_def eval_phase_sync save_checkpoint_trace train_phase_trace)

lemma inner_epochs_sync:
  assumes "\<not> evaluate_only r" and "inner_epochs r sts s = Inr s'"
  shows "sync_view (trace s') = sync_view (trace s) @ concat (map (\<lambda>st. [LoopBody st, Barrier]) sts)"
  using assms
proof (induction sts arbitrary: s)
  case Nil
  then show ?case by simp
next
  case (Cons st sts)
  from Cons.prems obtain s1 where s1: "inner_epoch r st s = Inr s1"
    by (cases "inner_epoch r st s") simp_all
  with Cons.prems have rest: "inner_epochs r sts (emit Barrier s1) = Inr s'" by simp
  have "sync_view (trace s1) = sync_view (trace s) @ [LoopBody st]"
    using inner_epoch_sync [of r st s] s1 by simp
  with Cons.IH [OF Cons.prems(1) rest] show ?case by simp
qed

lemma inner_epochs_evaluate_only:
  assumes "evaluate_only r"
  shows "sync_view (trace (final_state (inner_epochs r sts s))) =
           sync_view (trace s) @ (case sts of [] \<Rightarrow> [] | st # rest \<Rightarrow> [LoopBody st])"
proof (cases sts)
  case Nil
  then show ?thesis by simp
next
  case (Cons st rest)
  with assms inner_epoch_sync [of r st s] show ?thesis
    by (cases "inner_epoch r st s") simp_all
qed

lemma loop_starts_cycles: "loop_starts (concat (map (\<lambda>st. [LoopBody st, Barrier]) sts)) = sts"
  by (induction sts) simp_all

lemma count_barrier_cycles:
  "count_list (concat (map (\<lambda>st. [LoopBody st, Barrier]) sts)) Barrier = length sts"
  by (induction sts) simp_all

lemma train_returns:
  assumes "train r m opt = Inr s"
  shows "\<exists>s'. py_range 0 (max_iters r) (iters_per_inner_epoch r) = Inr (inner_epoch_starts r)
            \<and> inner_epochs r (inner_epoch_starts r) (start_state m opt) = Inr s'
            \<and> s = emit Evaluate s'"
  using assms by (auto simp: train_def inner_epoch_starts_def split: sum.splits)

lemma range_len_divides:
  assumes "0 < mx" and "0 < step" and "step dvd mx"
  shows "range_len 0 mx step = nat (mx div step)"
proof -
  from assms obtain k where k: "mx = step * k" by (auto simp: dvd_def)
  with assms have "0 < k" by (simp add: zero_less_mult_iff)
  have "(step * k - 1) div step = k - 1"
  proof -
    have "step * k - 1 = (step - 1) + (k - 1) * step" by (simp add: algebra_simps)
    then have "(step * k - 1) div step = (step - 1) div step + (k - 1)"
      by (simp only: div_mult_self1 [OF less_imp_neq [OF assms(2), symmetric]])
    with assms show ?thesis by simp
  qed
  with assms k show ?thesis by (simp add: range_len_def)
qed

lemma range_len_ceiling:
  assumes "0 < mx" and "0 < step"
  shows "range_len 0 mx step = nat ((mx + step - 1) div step)"
proof -
  have "mx + step - 1 = mx - 1 + step" by arith
  moreover have "(mx - 1 + step) div step = (mx - 1) div step + 1"
    using assms by simp
  ultimately have "(mx + step - 1) div step = (mx - 1) div step + 1"
    by (simp only:)
  with assms show ?thesis by (simp add: range_len_def)
qed

lemma inner_epoch_starts_positive:
  assumes "0 < iters_per_inner_epoch r"
  shows "inner_epoch_starts r =
           map (\<lambda>k. int k * iters_per_inner_epoch r)
             [0..<range_len 0 (max_iters r) (iters_per_inner_epoch r)]"
  using assms by (simp add: inner_epoch_starts_def py_range_def)

text \<open>Without evaluate-only mode a run that returns has entered the loop body once per
  element of the range, whether or not the step divides the bound.\<close>
lemma train_loop_starts:
  assumes "\<not> evaluate_only r" and "train r m opt = Inr s"
  shows "loop_starts (trace s) = inner_epoch_starts r"
proof -
  from train_returns [OF assms(2)] obtain s' where
    run: "inner_epochs r (inner_epoch_starts r) (start_state m opt) = Inr s'"
    and s: "s = emit Evaluate s'" by blast
  have "loop_starts (trace s') = loop_starts (sync_view (trace s'))"
    by (simp add: loop_starts_sync_view)
  also have "\<dots> = inner_epoch_starts r"
    using inner_epochs_sync [OF assms(1) run] by (simp add: loop_starts_cycles start_state_def)
  finally show ?thesis using s by simp
qed

section \<open>The number of inner epochs\<close>

lemma range_len_not_divides:
  assumes "0 < mx" and "0 < step" and "\<not> step dvd mx"
  shows "range_len 0 mx step = nat (mx div step) + 1"
proof -
  have pos: "0 < mx mod step"
    using assms(2,3) by (simp add: dvd_eq_mod_eq_0 order_less_le)
  have "mx - 1 = (mx mod step - 1) + (mx div step) * step"
    by (simp add: algebra_simps)
  then have split: "(mx - 1) div step = (mx mod step - 1 + (mx div step) * step) div step"
    by (simp only:)
  have shift: "(mx mod step - 1 + (mx div step) * step) div step
                 = (mx mod step - 1) div step + mx div step"
    by (simp only: div_mult_self1 [OF less_imp_neq [OF assms(2), symmetric]])
  have "mx mod step < step"
    using assms(2) by (rule pos_mod_bound)
  with pos have "0 \<le> mx mod step - 1" and "mx mod step - 1 < step" by arith+
  then have "(mx mod step - 1) div step = 0"
    by (rule div_pos_pos_trivial)
  with split shift have "(mx - 1) div step = mx div step" by (simp only: add_0)
  moreover have "0 \<le> mx div step"
    using assms(1,2) by (simp add: pos_imp_zdiv_nonneg_iff)
  ultimately show ?thesis
    using assms(1,2) by (simp add: range_len_def nat_add_distrib)
qed

lemma max_epoch_positive:
  assumes "0 < max_iters r" and "0 < iters_per_inner_epoch r"
  shows "max_epoch r = Inr (max_iters r div iters_per_inner_epoch r)"
proof -
  have "0 \<le> real_of_int (max_iters r) / real_of_int (iters_per_inner_epoch r)"
    using assms by simp
  then show ?thesis
    using assms(2) by (simp add: max_epoch_def floor_divide_of_int_eq)
qed

text \<open>
  Where the step divides the bound, a run that is not evaluate-only and that returns
  enters the loop body \<open>max_iters div iters_per_inner_epoch\<close> times, the value of the
  property \<open>max_epoch\<close>.
\<close>
lemma train_cycles_divisible:
  assumes "0 < max_iters r" and "0 < iters_per_inner_epoch r"
    and "iters_per_inner_epoch r dvd max_iters r"
    and "\<not> evaluate_only r" and "train r m opt = Inr s"
  shows "length (loop_starts (trace s)) = nat (max_iters r div iters_per_inner_epoch r)
         \<and> loop_starts (trace s) =
             map (\<lambda>k. int k * iters_per_inner_epoch r)
               [0..<nat (max_iters r div iters_per_inner_epoch r)]
         \<and> max_epoch r = Inr (max_iters r div iters_per_inner_epoch r)"
proof -
  have starts: "loop_starts (trace s) = inner_epoch_starts r"
    using assms(4,5) by (rule train_loop_starts)
  have len: "range_len 0 (max_iters r) (iters_per_inner_epoch r)
               = nat (max_iters r div iters_per_inner_epoch r)"
    using assms(1-3) by (rule range_len_divides)
  show ?thesis
    using starts len inner_epoch_starts_positive [OF assms(2)] max_epoch_positive [OF assms(1,2)]
    by simp
qed

text \<open>
  Where the step does not divide the bound, such a run enters the loop body once more
  than \<open>max_epoch\<close> says, and the last pass starts at the offset
  \<open>(max_iters div iters_per_inner_epoch) * iters_per_inner_epoch\<close>, so that it ends
  beyond \<open>max_iters\<close>.
\<close>
lemma train_cycles_not_divisible:
  assumes "0 < max_iters r" and "0 < iters_per_inner_epoch r"
    and "\<not> iters_per_inner_epoch r dvd max_iters r"
    and "\<not> evaluate_only r" and "train r m opt = Inr s"
  shows "length (loop_starts (trace s)) = nat (max_iters r div iters_per_inner_epoch r) + 1
         \<and> loop_starts (trace s) =
             map (\<lambda>k. int k * iters_per_inner_epoch r)
               [0..<nat (max_iters r div iters_per_inner_epoch r) + 1]
         \<and> max_epoch r = Inr (max_iters r div iters_per_inner_epoch r)"
proof -
  have starts: "loop_starts (trace s) = inner_epoch_starts r"
    using assms(4,5) by (rule train_loop_starts)
  have len: "range_len 0 (max_iters r) (iters_per_inner_epoch r)
               = nat (max_iters r div iters_per_inner_epoch r) + 1"
    using assms(1-3) by (rule range_len_not_divides)
  show ?thesis
    using starts len inner_epoch_starts_positive [OF assms(2)] max_epoch_positive [OF assms(1,2)]
    by simp
qed

text \<open>
  C2. With \<open>max_iters = 10\<close> and \<open>iters_per_inner_epoch = 3\<close>, both positive, a run
  that is not evaluate-only returns after entering the loop body 4 times, at the
  start offsets 0, 3, 6 and 9, whereas \<open>floor (10 / 3)\<close>, the value of the property
  \<open>max_epoch\<close>, is 3: the range of the loop has one element more than there are whole
  inner epochs, and the last pass trains from iteration 9 to iteration 12, beyond
  \<open>max_iters\<close>.
\<close>
theorem train_cycles_overshoot:
  "0 < max_iters (example_runner\<lparr>max_iters := 10, iters_per_inner_epoch := 3\<rparr>)
   \<and> 0 < iters_per_inner_epoch (example_runner\<lparr>max_iters := 10, iters_per_inner_epoch := 3\<rparr>)
   \<and> \<not> evaluate_only (example_runner\<lparr>max_iters := 10, iters_per_inner_epoch := 3\<rparr>)
   \<and> train (example_runner\<lparr>max_iters := 10, iters_per_inner_epoch := 3\<rparr>) [] [] =
       Inr (final_state (train (example_runner\<lparr>max_iters := 10, iters_per_inner_epoch := 3\<rparr>) [] []))
   \<and> loop_starts (trace (final_state
        (train (example_runner\<lparr>max_iters := 10, iters_per_inner_epoch := 3\<rparr>) [] []))) = [0, 3, 6, 9]
   \<and> length (loop_starts (trace (final_state
        (train (example_runner\<lparr>max_iters := 10, iters_per_inner_epoch := 3\<rparr>) [] [])))) = 4
   \<and> max_epoch (example_runner\<lparr>max_iters := 10, iters_per_inner_epoch := 3\<rparr>) = Inr 3
   \<and> save_calls (trace (final_state
        (train (example_runner\<lparr>max_iters := 10, iters_per_inner_epoch := 3\<rparr>) [] []))) =
       [(3, False), (6, False), (9, False), (12, False)]"
proof -
  let ?r = "example_runner\<lparr>max_iters := 10, iters_per_inner_epoch := 3\<rparr>"
  have "0 < max_iters ?r" "0 < iters_per_inner_epoch ?r" by simp_all
  moreover have "\<not> evaluate_only ?r" by (simp add: example_runner_def)
  moreover have "train ?r [] [] = Inr (final_state (train ?r [] []))" by code_simp
  moreover have starts: "loop_starts (trace (final_state (train ?r [] []))) = [0, 3, 6, 9]"
    by code_simp
  moreover have "max_epoch ?r = Inr 3" by (simp add: max_epoch_def)
  moreover have "save_calls (trace (final_state (train ?r [] []))) =
       [(3, False), (6, False), (9, False), (12, False)]"
    by code_simp
  ultimately show ?thesis by simp
qed

section \<open>The barrier\<close>

text \<open>
  C5 (amended). In a run that is not evaluate-only and that returns, \<open>dist.barrier()\<close>
  is awaited at the end of every inner epoch, the last one included: between a loop
  entry and the next one, or the final evaluation, there is exactly one barrier
  wait, so \<open>n\<close> inner epochs give \<open>n\<close> barrier waits.
\<close>
theorem barrier_after_every_inner_epoch:
  assumes "\<not> evaluate_only r" and "train r m opt = Inr s"
  shows "sync_view (trace s) =
           concat (map (\<lambda>st. [LoopBody st, Barrier]) (inner_epoch_starts r)) @ [Evaluate]
         \<and> count_list (trace s) Barrier = length (loop_starts (trace s))"
proof -
  from train_returns [OF assms(2)] obtain s' where
    run: "inner_epochs r (inner_epoch_starts r) (start_state m opt) = Inr s'"
    and s: "s = emit Evaluate s'" by blast
  have view: "sync_view (trace s') = concat (map (\<lambda>st. [LoopBody st, Barrier]) (inner_epoch_starts r))"
    using inner_epochs_sync [OF assms(1) run] by (simp add: start_state_def)
  have "count_list (trace s) Barrier = count_list (sync_view (trace s)) Barrier"
    by (simp add: count_barrier_sync_view)
  also have "\<dots> = length (inner_epoch_starts r)"
    using view s by (simp add: count_barrier_cycles)
  finally show ?thesis
    using view s train_loop_starts [OF assms] by simp
qed

theorem barrier_after_every_inner_epoch_witness:
  "\<not> evaluate_only val_runner
   \<and> train val_runner [] [] = Inr (final_state (train val_runner [] []))
   \<and> sync_view (trace (final_state (train val_runner [] []))) =
       [LoopBody 0, Barrier, LoopBody 2, Barrier, LoopBody 4, Barrier, Evaluate]"
proof -
  have h: "\<not> evaluate_only val_runner" by (simp add: val_runner_def)
  have run: "train val_runner [] [] = Inr (final_state (train val_runner [] []))"
    by code_simp
  have "inner_epoch_starts val_runner = [0, 2, 4]" by code_simp
  with barrier_after_every_inner_epoch [OF h run] h run show ?thesis by simp
qed

text \<open>
  Two inner epochs are followed by two barrier waits, not by one: the barrier is
  also awaited after the final inner epoch.
\<close>
theorem barrier_counterexample:
  "\<not> evaluate_only example_runner
   \<and> length (loop_starts (trace (final_state (train example_runner [] [])))) = 2
   \<and> count_list (trace (final_state (train example_runner [] []))) Barrier = 2
   \<and> sync_view (trace (final_state (train example_runner [] []))) =
       [LoopBody 0, Barrier, LoopBody 2, Barrier, Evaluate]"
proof -
  have "\<not> evaluate_only example_runner" by (simp add: example_runner_def)
  moreover have "length (loop_starts (trace (final_state (train example_runner [] [])))) = 2"
    by code_simp
  moreover have "count_list (trace (final_state (train example_runner [] []))) Barrier = 2"
    by code_simp
  moreover have "sync_view (trace (final_state (train example_runner [] []))) =
       [LoopBody 0, Barrier, LoopBody 2, Barrier, Evaluate]"
    by code_simp
  ultimately show ?thesis by simp
qed

section \<open>Runs without validation splits\<close>

lemma best_save_iters_epoch_saves: "best_save_iters (epoch_saves tr) = best_save_iters tr"
  by (induction tr rule: epoch_saves.induct) simp_all

lemma best_save_iters_no_best:
  "best_save_iters (concat (map (\<lambda>st. [LoopBody st, SaveCheckpoint (f st) False]) sts)) = []"
  by (induction sts) simp_all

lemma inner_epoch_no_splits:
  assumes "valid_splits r = []" and "\<not> evaluate_only r"
  shows "inner_epoch r st s =
           Inr (save_checkpoint r (st + iters_per_inner_epoch r) False
                  (train_phase r st (emit (LoopBody st) s)))"
  using assms by (simp add: inner_epoch_def)

lemma inner_epochs_no_splits:
  assumes "valid_splits r = []" and "\<not> evaluate_only r"
  shows "\<exists>s'. inner_epochs r sts s = Inr s'
           \<and> epoch_saves (trace s') = epoch_saves (trace s) @
               concat (map (\<lambda>st. [LoopBody st, SaveCheckpoint (st + iters_per_inner_epoch r) False]) sts)
           \<and> saved_files (trace s') = saved_files (trace s) @
               (if is_main_process r
                then map (\<lambda>st. checkpoint_path r (st + iters_per_inner_epoch r) False) sts
                else [])"
proof (induction sts arbitrary: s)
  case Nil
  show ?case by simp
next
  case (Cons st sts)
  let ?s1 = "save_checkpoint r (st + iters_per_inner_epoch r) False
               (train_phase r st (emit (LoopBody st) s))"
  from Cons.IH [of "emit Barrier ?s1"] obtain s' where
    run: "inner_epochs r sts (emit Barrier ?s1) = Inr s'"
    and saves: "epoch_saves (trace s') = epoch_saves (trace (emit Barrier ?s1)) @
               concat (map (\<lambda>st. [LoopBody st, SaveCheckpoint (st + iters_per_inner_epoch r) False]) sts)"
    and files: "saved_files (trace s') = saved_files (trace (emit Barrier ?s1)) @
               (if is_main_process r
                then map (\<lambda>st. checkpoint_path r (st + iters_per_inner_epoch r) False) sts
                else [])"
    by blast
  have "inner_epochs r (st # sts) s = Inr s'"
    using assms run by (simp add: inner_epoch_no_splits)
  moreover have "epoch_saves (trace (emit Barrier ?s1)) =
      epoch_saves (trace s) @ [LoopBody st, SaveCheckpoint (st + iters_per_inner_epoch r) False]"
    by (simp add: save_checkpoint_trace train_phase_trace)
  moreover have "saved_files (trace (emit Barrier ?s1)) =
      saved_files (trace s) @
        (if is_main_process r then [checkpoint_path r (st + iters_per_inner_epoch r) False] else [])"
    by (simp add: save_checkpoint_trace train_phase_trace)
  ultimately show ?case using saves files by simp
qed

text \<open>
  C8. With no validation split and not in evaluate-only mode, every inner epoch makes
  exactly one call \<open>save_checkpoint(end_iters, is_best=False)\<close>, with \<open>end_iters\<close> the
  end of that inner epoch, and no call with \<open>is_best=True\<close> is ever made; on the main
  process the files written are the iteration-labelled ones, one per inner epoch
  (on other processes the call writes nothing). Such a run cannot fail in the loop:
  unless the step is zero it returns.
\<close>
theorem no_splits_one_checkpoint_per_epoch:
  assumes "valid_splits r = []" and "\<not> evaluate_only r"
  shows "epoch_saves (trace (final_state (train r m opt))) =
           concat (map (\<lambda>st. [LoopBody st, SaveCheckpoint (st + iters_per_inner_epoch r) False])
                     (inner_epoch_starts r))
         \<and> best_save_iters (trace (final_state (train r m opt))) = []
         \<and> saved_files (trace (final_state (train r m opt))) =
             (if is_main_process r
              then map (\<lambda>st. checkpoint_path r (st + iters_per_inner_epoch r) False)
                     (inner_epoch_starts r)
              else [])
         \<and> (iters_per_inner_epoch r \<noteq> 0 \<longrightarrow> (\<exists>s. train r m opt = Inr s))"
proof (cases "py_range 0 (max_iters r) (iters_per_inner_epoch r)")
  case (Inl e)
  then have "iters_per_inner_epoch r = 0"
    by (simp add: py_range_def split: if_splits)
  with Inl show ?thesis
    by (simp add: train_def inner_epoch_starts_def start_state_def)
next
  case (Inr sts)
  from inner_epochs_no_splits [OF assms, of sts "start_state m opt"] obtain s' where
    run: "inner_epochs r sts (start_state m opt) = Inr s'"
    and saves: "epoch_saves (trace s') =
               concat (map (\<lambda>st. [LoopBody st, SaveCheckpoint (st + iters_per_inner_epoch r) False]) sts)"
    and files: "saved_files (trace s') =
               (if is_main_process r
                then map (\<lambda>st. checkpoint_path r (st + iters_per_inner_epoch r) False) sts
                else [])"
    by (auto simp: start_state_def)
  have fin: "train r m opt = Inr (emit Evaluate s')"
    using Inr run by (simp add: train_def)
  have "best_save_iters (trace s') = best_save_iters (epoch_saves (trace s'))"
    by (simp add: best_save_iters_epoch_saves)
  also have "\<dots> = []"
    by (simp only: saves best_save_iters_no_best)
  finally show ?thesis
    using fin saves files Inr by (simp add: inner_epoch_starts_def)
qed

theorem no_splits_one_checkpoint_per_epoch_witness:
  "valid_splits example_runner = [] \<and> \<not> evaluate_only example_runner
   \<and> epoch_saves (trace (final_state (train example_runner [] []))) =
       [LoopBody 0, SaveCheckpoint 2 False, LoopBody 2, SaveCheckpoint 4 False]
   \<and> saved_files (trace (final_state (train example_runner [] []))) =
       [''out/checkpoint_2.pth'', ''out/checkpoint_4.pth'']"
proof -
  have h: "valid_splits example_runner = []" "\<not> evaluate_only example_runner"
    by (simp_all add: example_runner_def)
  have starts: "inner_epoch_starts example_runner = [0, 2]" by code_simp
  have paths: "checkpoint_path example_runner 2 False = ''out/checkpoint_2.pth''"
    "checkpoint_path example_runner 4 False = ''out/checkpoint_4.pth''"
    by code_simp+
  have main: "is_main_process example_runner" "iters_per_inner_epoch example_runner = 2"
    by (simp_all add: example_runner_def)
  from no_splits_one_checkpoint_per_epoch [OF h, of "[]" "[]"] h show ?thesis
    by (simp add: starts paths main)
qed

section \<open>Evaluate-only mode\<close>

lemma val_split_save_calls:
  "filter (\<lambda>p. \<not> snd p) (save_calls (trace (final_state (val_split r e sp s))))
     = filter (\<lambda>p. \<not> snd p) (save_calls (trace s))"
  by (simp add: val_split_def Let_def save_checkpoint_trace split: option.splits)

lemma eval_phase_save_calls:
  "filter (\<lambda>p. \<not> snd p) (save_calls (trace (final_state (eval_phase r e sps s))))
     = filter (\<lambda>p. \<not> snd p) (save_calls (trace s))"
proof (induction sps arbitrary: s)
  case Nil
  show ?case by simp
next
  case (Cons sp sps)
  show ?case
  proof (cases "val_split r e sp s")
    case (Inl a)
    with val_split_save_calls [of r e sp s] show ?thesis by simp
  next
    case (Inr s')
    with val_split_save_calls [of r e sp s] Cons.IH [of s'] show ?thesis by simp
  qed
qed

text \<open>
  What does hold in evaluate-only mode: the loop body is entered at most once, the
  barrier is never awaited, and \<open>save_checkpoint\<close> is never called with
  \<open>is_best=False\<close>.
\<close>
lemma evaluate_only_run:
  assumes "evaluate_only r"
  shows "length (loop_starts (trace (final_state (train r m opt)))) \<le> 1
         \<and> count_list (trace (final_state (train r m opt))) Barrier = 0
         \<and> filter (\<lambda>p. \<not> snd p) (save_calls (trace (final_state (train r m opt)))) = []"
proof (cases "py_range 0 (max_iters r) (iters_per_inner_epoch r)")
  case (Inl e)
  then show ?thesis by (simp add: train_def start_state_def)
next
  case (Inr sts)
  let ?s0 = "start_state m opt"
  let ?fin = "final_state (inner_epochs r sts ?s0)"
  have view: "sync_view (trace ?fin) = (case sts of [] \<Rightarrow> [] | st # rest \<Rightarrow> [LoopBody st])"
    using inner_epochs_evaluate_only [OF assms, of sts ?s0] by (simp add: start_state_def)
  have calls: "filter (\<lambda>p. \<not> snd p) (save_calls (trace ?fin)) = []"
  proof (cases sts)
    case Nil
    then show ?thesis by (simp add: start_state_def)
  next
    case (Cons st rest)
    have "filter (\<lambda>p. \<not> snd p) (save_calls (trace (final_state (inner_epoch r st ?s0)))) = []"
      using assms by (simp add: inner_epoch_def Let_def eval_phase_save_calls start_state_def)
    with Cons assms show ?thesis
      by (cases "inner_epoch r st ?s0") simp_all
  qed
  have tr: "trace (final_state (train r m opt)) = trace ?fin
            \<or> trace (final_state (train r m opt)) = trace ?fin @ [Evaluate]"
    using Inr by (cases "inner_epochs r sts ?s0") (auto simp: train_def)
  define tr0 where "tr0 = trace ?fin"
  have view0: "sync_view tr0 = (case sts of [] \<Rightarrow> [] | st # rest \<Rightarrow> [LoopBody st])"
    using view by (simp only: tr0_def)
  have "loop_starts tr0 = loop_starts (sync_view tr0)"
    by (simp only: loop_starts_sync_view)
  then have one: "length (loop_starts tr0) \<le> 1"
    by (cases sts) (simp_all add: view0)
  have "count_list tr0 Barrier = count_list (sync_view tr0) Barrier"
    by (simp only: count_barrier_sync_view)
  then have none: "count_list tr0 Barrier = 0"
    by (cases sts) (simp_all add: view0)
  from tr calls have "(trace (final_state (train r m opt)) = tr0
            \<or> trace (final_state (train r m opt)) = tr0 @ [Evaluate])
          \<and> filter (\<lambda>p. \<not> snd p) (save_calls tr0) = []"
    by (simp only: tr0_def)
  with one none show ?thesis by auto
qed

text \<open>
  C3. In evaluate-only mode, a \<open>val\<close> metric above the best one so far still makes
  \<open>train\<close> call \<open>save_checkpoint(end_iters, is_best=True)\<close>, and the main process
  writes \<open>checkpoint_best.pth\<close>: the guard \<open>not self.evaluate_only\<close> of the branch
  without validation splits is missing on this path.
\<close>
theorem evaluate_only_saves_best:
  "evaluate_only (val_runner\<lparr>evaluate_only := True\<rparr>)
   \<and> trace (final_state (train (val_runner\<lparr>evaluate_only := True\<rparr>) [] [])) =
       [LoopBody 0, EvalEpoch ''val'' 2, SaveCheckpoint 2 True,
        TorchSave ''out/checkpoint_best.pth''
          [(''model'', StateDict []), (''optimizer'', StateDict []),
           (''config'', ConfigDict [(''max_iters'', 6), (''iters_per_inner_epoch'', 2)]),
           (''iters'', IntObj 2)],
        LogStats ''val'' [(''agg_metrics'', 1), (''best_iters'', 2)],
        EvalEpoch ''test'' 2,
        LogStats ''test'' [(''agg_metrics'', 5), (''best_iters'', 2)],
        Evaluate]"
proof -
  have "evaluate_only (val_runner\<lparr>evaluate_only := True\<rparr>)" by simp
  moreover have "trace (final_state (train (val_runner\<lparr>evaluate_only := True\<rparr>) [] [])) =
       [LoopBody 0, EvalEpoch ''val'' 2, SaveCheckpoint 2 True,
        TorchSave ''out/checkpoint_best.pth''
          [(''model'', StateDict []), (''optimizer'', StateDict []),
           (''config'', ConfigDict [(''max_iters'', 6), (''iters_per_inner_epoch'', 2)]),
           (''iters'', IntObj 2)],
        LogStats ''val'' [(''agg_metrics'', 1), (''best_iters'', 2)],
        EvalEpoch ''test'' 2,
        LogStats ''test'' [(''agg_metrics'', 5), (''best_iters'', 2)],
        Evaluate]"
    by code_simp
  ultimately show ?thesis by simp
qed

section \<open>A validation log without the aggregate metric\<close>









section \<open>The best checkpoint\<close>

lemma fold_max_less: "fold max ms b < (x::real) \<longleftrightarrow> list_all (\<lambda>p. p < x) (b # ms)"
  by (induction ms arbitrary: b) auto

lemma spec_best_iters_snoc:
  "spec_best_iters prev (obs @ [(e, m)]) =
     spec_best_iters prev obs
     @ (if list_all (\<lambda>p. p < m) (prev @ map snd obs) then [e] else [])"
  by (induction obs arbitrary: prev) auto

lemma best_tracked_emit:
  assumes "best_tracked r s" and "val_observations r [ev] = []" and "best_save_iters [ev] = []"
  shows "best_tracked r (emit ev s)"
  using assms by (simp add: best_tracked_def)

lemma best_tracked_train_phase:
  assumes "best_tracked r s"
  shows "best_tracked r (train_phase r st s)"
  using assms by (simp add: best_tracked_def train_phase_trace)

lemma best_tracked_save_plain:
  assumes "best_tracked r s"
  shows "best_tracked r (save_checkpoint r c False s)"
  using assms by (simp add: best_tracked_def save_checkpoint_trace)

lemma val_split_best_tracked:
  assumes "is_main_process r" and "best_tracked r s"
  shows "best_tracked r (final_state (val_split r e sp s))"
proof (cases "eval_epoch r sp e")
  case None
  with assms(2) show ?thesis
    by (cases "sp = ''val''") (simp_all add: val_split_def best_tracked_def agg_of_def)
next
  case (Some val_log)
  show ?thesis
  proof (cases "map_of val_log ''agg_metrics''")
    case None
    with Some assms show ?thesis
      by (cases "sp = ''val''") (simp_all add: val_split_def best_tracked_def agg_of_def)
  next
    case (Some m)
    note agg = \<open>eval_epoch r sp e = Some val_log\<close> Some
    show ?thesis
    proof (cases "sp = ''val''")
      case False
      with agg assms show ?thesis
        by (simp add: val_split_def best_tracked_def agg_of_def Let_def)
    next
      case True
      let ?obs = "val_observations r (trace s)"
      have new: "best_agg_metric s < m \<longleftrightarrow> list_all (\<lambda>p. p < m) ([0] @ map snd ?obs)"
        using assms(2) by (simp add: best_tracked_def fold_max_less)
      show ?thesis
      proof (cases "best_agg_metric s < m")
        case True
        with new have "list_all (\<lambda>p. p < m) ([0] @ map snd ?obs)" by simp
        then have "spec_best_iters [0] (?obs @ [(e, m)]) = spec_best_iters [0] ?obs @ [e]"
          by (simp only: spec_best_iters_snoc if_True)
        moreover have "max (best_agg_metric s) m = m" using True by simp
        ultimately show ?thesis
          using agg assms True \<open>sp = ''val''\<close>
          by (simp add: val_split_def best_tracked_def agg_of_def Let_def save_checkpoint_trace)
      next
        case False
        with new have "\<not> list_all (\<lambda>p. p < m) ([0] @ map snd ?obs)" by simp
        then have "spec_best_iters [0] (?obs @ [(e, m)]) = spec_best_iters [0] ?obs"
          by (simp only: spec_best_iters_snoc if_False append_Nil2)
        moreover have "max (best_agg_metric s) m = best_agg_metric s" using False by simp
        ultimately show ?thesis
          using agg assms False \<open>sp = ''val''\<close>
          by (simp add: val_split_def best_tracked_def agg_of_def Let_def)
      qed
    qed
  qed
qed

lemma eval_phase_best_tracked:
  assumes "is_main_process r" and "best_tracked r s"
  shows "best_tracked r (final_state (eval_phase r e sps s))"
  using assms(2)
proof (induction sps arbitrary: s)
  case Nil
  then show ?case by simp
next
  case (Cons sp sps)
  have step: "best_tracked r (final_state (val_split r e sp s))"
    using assms(1) Cons.prems by (rule val_split_best_tracked)
  show ?case
  proof (cases "val_split r e sp s")
    case (Inl a)
    with step show ?thesis by simp
  next
    case (Inr s')
    with step have "best_tracked r s'" by simp
    then have "best_tracked r (final_state (eval_phase r e sps s'))" by (rule Cons.IH)
    with Inr show ?thesis by simp
  qed
qed

lemma inner_epoch_best_tracked:
  assumes "is_main_process r" and "best_tracked r s"
  shows "best_tracked r (final_state (inner_epoch r st s))"
proof -
  have s0: "best_tracked r (emit (LoopBody st) s)"
    using assms(2) by (rule best_tracked_emit) simp_all
  then have s1: "best_tracked r (train_phase r st (emit (LoopBody st) s))"
    by (rule best_tracked_train_phase)
  show ?thesis
    using s0 s1 eval_phase_best_tracked [OF assms(1) s0] eval_phase_best_tracked [OF assms(1) s1]
      best_tracked_save_plain [OF s1]
    by (simp add: inner_epoch_def Let_def)
qed

lemma inner_epochs_best_tracked:
  assumes "is_main_process r" and "best_tracked r s"
  shows "best_tracked r (final_state (inner_epochs r sts s))"
  using assms(2)
proof (induction sts arbitrary: s)
  case Nil
  then show ?case by simp
next
  case (Cons st sts)
  have step: "best_tracked r (final_state (inner_epoch r st s))"
    using assms(1) Cons.prems by (rule inner_epoch_best_tracked)
  show ?case
  proof (cases "inner_epoch r st s")
    case (Inl a)
    with step show ?thesis by simp
  next
    case (Inr s')
    with step have ok: "best_tracked r s'" by simp
    then have "best_tracked r (emit Barrier s')"
      by (rule best_tracked_emit) simp_all
    then have "best_tracked r (final_state (inner_epochs r sts (emit Barrier s')))"
      by (rule Cons.IH)
    with Inr ok show ?thesis by simp
  qed
qed

lemma train_best_tracked:
  assumes "is_main_process r"
  shows "best_tracked r (final_state (train r m opt))"
proof -
  have start: "best_tracked r (start_state m opt)"
    by (simp add: best_tracked_def start_state_def)
  show ?thesis
  proof (cases "py_range 0 (max_iters r) (iters_per_inner_epoch r)")
    case (Inl e)
    with start show ?thesis by (simp add: train_def)
  next
    case (Inr sts)
    have loop: "best_tracked r (final_state (inner_epochs r sts (start_state m opt)))"
      using assms start by (rule inner_epochs_best_tracked)
    show ?thesis
    proof (cases "inner_epochs r sts (start_state m opt)")
      case (Inl a)
      with loop \<open>py_range 0 (max_iters r) (iters_per_inner_epoch r) = Inr sts\<close> show ?thesis
        by (simp add: train_def)
    next
      case (Inr s')
      with loop have "best_tracked r (emit Evaluate s')"
        by (intro best_tracked_emit) simp_all
      with Inr \<open>py_range 0 (max_iters r) (iters_per_inner_epoch r) = Inr sts\<close> show ?thesis
        by (simp add: train_def)
    qed
  qed
qed

text \<open>
  C1 (amended). In a run of \<open>train\<close> that is not evaluate-only, on the main process,
  \<open>save_checkpoint\<close> is called with \<open>is_best=True\<close> exactly for those validation passes
  on the split \<open>val\<close> whose aggregate metric strictly exceeds 0 and every \<open>val\<close>
  aggregate metric observed before in the run, each time with the iteration count of
  that pass; and at the end the tracked best metric is the greatest of 0 and the
  observed \<open>val\<close> metrics.
\<close>
theorem best_checkpoint_iff_new_maximum:
  assumes "is_main_process r" and "\<not> evaluate_only r"
  shows "best_save_iters (trace (final_state (train r m opt))) =
           spec_best_iters [0] (val_observations r (trace (final_state (train r m opt))))
         \<and> best_agg_metric (final_state (train r m opt)) =
             fold max (map snd (val_observations r (trace (final_state (train r m opt))))) 0"
  using train_best_tracked [OF assms(1), of m opt] by (simp add: best_tracked_def)

theorem best_checkpoint_iff_new_maximum_witness:
  "is_main_process val_runner \<and> \<not> evaluate_only val_runner
   \<and> val_observations val_runner (trace (final_state (train val_runner [] []))) =
       [(2, 1), (4, 3), (6, 2)]
   \<and> best_save_iters (trace (final_state (train val_runner [] []))) = [2, 4]
   \<and> best_agg_metric (final_state (train val_runner [] [])) = 3"
proof -
  have h: "is_main_process val_runner" "\<not> evaluate_only val_runner"
    by (simp_all add: val_runner_def)
  have obs: "val_observations val_runner (trace (final_state (train val_runner [] []))) =
       [(2, 1), (4, 3), (6, 2)]"
    by code_simp
  from best_checkpoint_iff_new_maximum [OF h, of "[]" "[]"] h show ?thesis
    by (simp add: obs)
qed

text \<open>
  The first \<open>val\<close> metric of the run, \<open>-1\<close>, exceeds every metric observed before it,
  as there is none; read as the claim states it, a best checkpoint is due at
  iteration count 1. The run saves none: the metric does not exceed the initial 0.
\<close>
theorem best_checkpoint_counterexample:
  "val_observations negative_runner (trace (final_state (train negative_runner [] []))) = [(1, - 1)]
   \<and> spec_best_iters [] [(1, - 1)] = [1]
   \<and> best_save_iters (trace (final_state (train negative_runner [] []))) = []"
proof -
  have "val_observations negative_runner (trace (final_state (train negative_runner [] [])))
          = [(1, - 1)]"
    by code_simp
  moreover have "best_save_iters (trace (final_state (train negative_runner [] []))) = []"
    by code_simp
  ultimately show ?thesis by simp
qed

end
